theory Spec2Isabelle
  imports Complex_Main
begin

section \<open>Pitch and naming utilities\<close>

text \<open>
  The source file \<^verbatim>\<open>src/App.tsx\<close> is embedded function by function. A JavaScript
  number is a double. One that holds a note index is embedded as an \<^typ>\<open>int\<close>, which is
  exact for the safe integers, those of magnitude at most \<open>2^53 - 1\<close> (the 35 keys of the
  grid have the notes 36 .. 95); outside that range the embedding of the naming utility
  gives no value. One that holds a frequency or a playback rate is an idealised
  \<^typ>\<open>real\<close>.
\<close>

definition safe_integer :: "int \<Rightarrow> bool" where
  "safe_integer n = (\<bar>n\<bar> \<le> 2 ^ 53 - 1)"

subsection \<open>\<^verbatim>\<open>midiNoteToPitch\<close>\<close>

definition midiNoteToPitch :: "int \<Rightarrow> real" where
  "midiNoteToPitch note = 440 * 2 powr ((real_of_int note - 69) / 12)"

text \<open>The playback rate \<^verbatim>\<open>start\<close> computes: \<^verbatim>\<open>midiNoteToPitch(note) / midiNoteToPitch(60)\<close>.\<close>

definition pitchRatio :: "int \<Rightarrow> real" where
  "pitchRatio note = midiNoteToPitch note / midiNoteToPitch 60"

subsection \<open>\<^verbatim>\<open>midiNoteToName\<close>\<close>

definition names :: "string list" where
  "names = [''C'', ''C#'', ''D'', ''D#'', ''E'', ''F'', ''F#'', ''G'', ''G#'', ''A'', ''A#'', ''B'']"

text \<open>
  JavaScript's \<^verbatim>\<open>%\<close> truncates: the remainder has the sign of the dividend, so
  \<^verbatim>\<open>-1 % 12\<close> is \<^verbatim>\<open>-1\<close>, where \<^term>\<open>(-1::int) mod 12\<close> is 11.
\<close>

definition js_rem :: "int \<Rightarrow> int \<Rightarrow> int" where
  "js_rem a b = sgn a * (\<bar>a\<bar> mod \<bar>b\<bar>)"

text \<open>
  Reading an array at an index: an index outside \<^verbatim>\<open>0 .. length - 1\<close> (a negative one
  is a property name the array does not have) gives \<^verbatim>\<open>undefined\<close>, here \<^term>\<open>None\<close>.
\<close>

definition array_get :: "'a list \<Rightarrow> int \<Rightarrow> 'a option" where
  "array_get xs i = (if 0 \<le> i \<and> i < int (length xs) then Some (xs ! nat i) else None)"

text \<open>A template literal prints \<^verbatim>\<open>undefined\<close> as the word itself.\<close>

definition template_string :: "string option \<Rightarrow> string" where
  "template_string v = (case v of None \<Rightarrow> ''undefined'' | Some s \<Rightarrow> s)"

text \<open>Decimal digits of an integer.\<close>

definition digit_char :: "nat \<Rightarrow> char" where
  "digit_char d = ''0123456789'' ! d"

fun nat_to_string :: "nat \<Rightarrow> string" where
  "nat_to_string n =
     (if n < 10 then [digit_char n] else nat_to_string (n div 10) @ [digit_char (n mod 10)])"

declare nat_to_string.simps [simp del]

definition decimal :: "int \<Rightarrow> string" where
  "decimal i = (if i < 0 then ''-'' @ nat_to_string (nat (- i)) else nat_to_string (nat i))"

text \<open>
  How a template literal prints a whole number: in decimal digits below \<open>10^21\<close>. From
  \<open>10^21\<close> on the platform prints the shortest digits of the double with an exponent,
  which is not embedded: \<^term>\<open>None\<close>.
\<close>

definition number_to_string :: "int \<Rightarrow> string option" where
  "number_to_string i = (if \<bar>i\<bar> < 10 ^ 21 then Some (decimal i) else None)"

text \<open>
  For a safe integer \<^verbatim>\<open>note\<close> the quotient \<^verbatim>\<open>note / 12\<close> is below \<open>2^50\<close> in magnitude, so
  the double nearest to it is at most \<open>1/16\<close> away, while the exact quotient is a whole
  number or at least \<open>1/12\<close> away from one: the rounded quotient has the same floor, and
  \<^verbatim>\<open>Math.floor(note / 12)\<close> is \<open>note div 12\<close>. The remainder \<^verbatim>\<open>note % 12\<close> and the
  subtraction are exact. Beyond the safe integers the quotient rounds, and the embedding
  gives \<^term>\<open>None\<close>.
\<close>

definition midiNoteToName :: "int \<Rightarrow> string option" where
  "midiNoteToName note =
     (if \<not> safe_integer note then None
      else
        (let octave = note div 12 - 1;
             name = array_get names (js_rem note 12)
         in case number_to_string octave of
              None \<Rightarrow> None
            | Some printed \<Rightarrow> Some (template_string name @ printed)))"

text \<open>
  The display name as the specification words it: the pitch class cycles through the
  twelve names at index \<open>n mod 12\<close> (the mathematical, non-negative remainder) and the
  octave is \<open>floor (n / 12) - 1\<close>, in decimal digits.
\<close>

definition displayName_spec :: "int \<Rightarrow> string" where
  "displayName_spec n = names ! nat (n mod 12) @ decimal (n div 12 - 1)"


section \<open>Sample store and application shell\<close>

text \<open>
  A decoded audio buffer is opaque to the program: it is named by the source it was
  decoded from.
\<close>

datatype audio_buffer = AudioBuffer string

datatype http_response = Response (ok: bool) (body: string)

text \<open>A settled promise: fulfilled with a value or rejected with an error message.\<close>

datatype 'a settled = Fulfilled 'a | Rejected string

text \<open>
  The fetcher that \<^verbatim>\<open>useSampleData\<close> hands to \<^verbatim>\<open>useSWR\<close>: it throws when the response
  is not ok and otherwise decodes the body. The outcome of \<^verbatim>\<open>fetch\<close> and the platform's
  \<^verbatim>\<open>decodeAudioData\<close> are parameters.
\<close>

definition fetcher :: "http_response settled \<Rightarrow> (string \<Rightarrow> audio_buffer settled) \<Rightarrow> audio_buffer settled" where
  "fetcher fetched decodeAudioData =
     (case fetched of
        Rejected e \<Rightarrow> Rejected e
      | Fulfilled response \<Rightarrow>
          if \<not> ok response then Rejected ''Failed to fetch audio''
          else decodeAudioData (body response))"

text \<open>What \<^verbatim>\<open>useSWR\<close> returns: the data once the fetcher has fulfilled, the error once it has rejected.\<close>

record 'a swr_response =
  data :: "'a option"
  error :: "string option"

text \<open>The argument is \<^term>\<open>None\<close> while the fetcher is still in flight.\<close>

definition useSampleData :: "audio_buffer settled option \<Rightarrow> audio_buffer swr_response" where
  "useSampleData outcome =
     (case outcome of
        None \<Rightarrow> \<lparr>data = None, error = None\<rparr>
      | Some (Fulfilled b) \<Rightarrow> \<lparr>data = Some b, error = None\<rparr>
      | Some (Rejected e) \<Rightarrow> \<lparr>data = None, error = Some e\<rparr>)"

text \<open>
  The processing nodes the application builds. A node is named by its index in the
  context's node list; index 0 is \<^verbatim>\<open>audioContext.destination\<close>. Gains are the decimal
  literals of the source, read exactly.
\<close>

datatype graph_node =
    DestinationNode
  | ConvolverNode audio_buffer "nat list"
  | GainNode rat "nat list"

record app_state =
  graph :: "graph_node list"
  destinationNodes :: "nat list"

definition destination :: nat where
  "destination = 0"

text \<open>The state \<^verbatim>\<open>App\<close> starts from: a new context, and \<^verbatim>\<open>[audioContext.destination]\<close>.\<close>

definition App_init :: app_state where
  "App_init = \<lparr>graph = [DestinationNode], destinationNodes = [destination]\<rparr>"

text \<open>The effect of \<^verbatim>\<open>App\<close> that depends on \<^verbatim>\<open>convolution.data\<close>.\<close>

definition convolution_effect :: "audio_buffer swr_response \<Rightarrow> app_state \<Rightarrow> app_state" where
  "convolution_effect convolution a =
     (case data convolution of
        None \<Rightarrow> a
      | Some ir \<Rightarrow>
          (let convolver = length (graph a);
               g1 = graph a @ [ConvolverNode ir [destination]];
               dryGainNode = length g1;
               g2 = g1 @ [GainNode (8 / 10) [destination]];
               wetGainNode = length g2;
               g3 = g2 @ [GainNode (2 / 10) [convolver]]
           in a\<lparr>graph := g3, destinationNodes := [dryGainNode, wetGainNode]\<rparr>))"

text \<open>Where a node's output is connected to.\<close>

fun node_outputs :: "graph_node \<Rightarrow> nat list" where
  "node_outputs DestinationNode = []"
| "node_outputs (ConvolverNode b outs) = outs"
| "node_outputs (GainNode g outs) = outs"

text \<open>
  The number of routes from a node to the output device, following connections for at
  most \<open>fuel\<close> hops (the graphs built here are three nodes deep).
\<close>

fun routes_to_output :: "nat \<Rightarrow> graph_node list \<Rightarrow> nat \<Rightarrow> nat" where
  "routes_to_output 0 g n = (if n = destination then 1 else 0)"
| "routes_to_output (Suc fuel) g n =
     (if n = destination then 1
      else if n < length g then sum_list (map (routes_to_output fuel g) (node_outputs (g ! n)))
      else 0)"

text \<open>The props of one key.\<close>

record NoteButtonProps =
  tone :: int
  octave :: int
  destinationNodesProp :: "nat list"
  headBuffer :: audio_buffer
  loopBuffer :: audio_buffer
  tailBuffer :: audio_buffer

text \<open>What \<^verbatim>\<open>App\<close> renders: the loading message, or the rows of keys.\<close>

datatype view = Message string | Keys "NoteButtonProps list list"

definition App :: "audio_buffer swr_response \<Rightarrow> audio_buffer swr_response \<Rightarrow>
    audio_buffer swr_response \<Rightarrow> audio_buffer swr_response \<Rightarrow> app_state \<Rightarrow> view" where
  "App head loop tail convolution a =
     (if \<not> (data head \<noteq> None \<and> data loop \<noteq> None \<and> data tail \<noteq> None)
      then Message ''Loading samples...''
      else Keys (map (\<lambda>oct. map (\<lambda>tn.
                  \<lparr>tone = tn, octave = oct, destinationNodesProp = destinationNodes a,
                   headBuffer = the (data head), loopBuffer = the (data loop),
                   tailBuffer = the (data tail)\<rparr>)
                [0, 2, 4, 5, 7, 9, 11]) [2, 1, 0, - 1, - 2]))"

text \<open>
  The display as the specification words it: loading until all four buffers have
  resolved, an error display as soon as one of them has failed.
\<close>

datatype display = LoadingDisplay | ErrorDisplay | GridDisplay

definition display_spec :: "audio_buffer swr_response \<Rightarrow> audio_buffer swr_response \<Rightarrow>
    audio_buffer swr_response \<Rightarrow> audio_buffer swr_response \<Rightarrow> display" where
  "display_spec head loop tail convolution =
     (if error head \<noteq> None \<or> error loop \<noteq> None \<or> error tail \<noteq> None \<or> error convolution \<noteq> None
      then ErrorDisplay
      else if data head \<noteq> None \<and> data loop \<noteq> None \<and> data tail \<noteq> None \<and> data convolution \<noteq> None
      then GridDisplay
      else LoadingDisplay)"

text \<open>Which of the three displays a rendered view is.\<close>

definition display_of :: "view \<Rightarrow> display" where
  "display_of v =
     (case v of
        Keys rows \<Rightarrow> GridDisplay
      | Message m \<Rightarrow> if m = ''Loading samples...'' then LoadingDisplay else ErrorDisplay)"


section \<open>The platform's playback nodes\<close>

text \<open>
  An \<^verbatim>\<open>AudioBufferSourceNode\<close> of the Web Audio API, as far as the program uses it.
  \<^verbatim>\<open>start()\<close> raises \<^verbatim>\<open>InvalidStateError\<close> on a node that was started before, and
  \<^verbatim>\<open>stop()\<close> raises it on a node that was never started; \<^verbatim>\<open>disconnect()\<close> removes every
  outgoing connection and \<^verbatim>\<open>connect\<close> adds one (a connection that exists is not added
  again); neither raises.
\<close>

datatype dom_exception = InvalidStateError

text \<open>
  The two closures the program registers for a node's \<^verbatim>\<open>ended\<close> event:
  \<^verbatim>\<open>() => loopSource.start()\<close>, which holds the loop node itself, and
  \<^verbatim>\<open>() => stopSourceRef(tailSourceRef)\<close>, which holds the key's tail handle.
\<close>

datatype listener = StartLoopSource nat | StopTailSourceRef

text \<open>
  The node's settings and connections, the platform's record of \<^verbatim>\<open>start()\<close>, \<^verbatim>\<open>stop()\<close> and
  the \<^verbatim>\<open>ended\<close> event, and the listeners registered with \<^verbatim>\<open>addEventListener\<close> and
  \<^verbatim>\<open>onended\<close>. The playback rate is carried along and never inspected.
\<close>

record source_node =
  buffer :: "audio_buffer option"
  loop :: bool
  playbackRate :: real
  outputs :: "nat list"
  source_started :: bool
  stop_called :: bool
  ended_fired :: bool
  ended_listeners :: "listener list"
  onended :: "listener option"

definition node_start :: "source_node \<Rightarrow> dom_exception + source_node" where
  "node_start n =
     (if source_started n then Inl InvalidStateError else Inr (n\<lparr>source_started := True\<rparr>))"

definition node_stop :: "source_node \<Rightarrow> dom_exception + source_node" where
  "node_stop n =
     (if \<not> source_started n then Inl InvalidStateError else Inr (n\<lparr>stop_called := True\<rparr>))"

definition node_disconnect :: "source_node \<Rightarrow> source_node" where
  "node_disconnect n = n\<lparr>outputs := []\<rparr>"

definition node_connect :: "nat \<Rightarrow> source_node \<Rightarrow> source_node" where
  "node_connect d n = (if d \<in> set (outputs n) then n else n\<lparr>outputs := outputs n @ [d]\<rparr>)"

text \<open>What \<^verbatim>\<open>audioContext.createBufferSource()\<close> returns.\<close>

definition new_buffer_source :: source_node where
  "new_buffer_source =
     \<lparr>buffer = None, loop = False, playbackRate = 1, outputs = [],
      source_started = False, stop_called = False, ended_fired = False,
      ended_listeners = [], onended = None\<rparr>"

text \<open>
  A node sounds while it has been started and has neither been stopped nor played to
  its end; it is live while it is connected to the graph, and it is heard when both hold.
\<close>

definition playing :: "source_node \<Rightarrow> bool" where
  "playing n = (source_started n \<and> \<not> stop_called n \<and> \<not> ended_fired n)"

definition live :: "source_node \<Rightarrow> bool" where
  "live n = (outputs n \<noteq> [])"

definition audible :: "source_node \<Rightarrow> bool" where
  "audible n = (playing n \<and> live n)"

section \<open>The voice of one key\<close>

text \<open>
  The state one \<^verbatim>\<open>NoteButton\<close> works on: the source nodes it has created (a node is named
  by its index), its three handles, the \<^verbatim>\<open>style.transform\<close> of its button (\<^term>\<open>None\<close>
  while \<^verbatim>\<open>buttonRef.current\<close> is null) and whether the shared context is running.
\<close>

datatype source_ref = HeadRef | LoopRef | TailRef

record voice =
  nodes :: "source_node list"
  headSourceRef :: "nat option"
  loopSourceRef :: "nat option"
  tailSourceRef :: "nat option"
  button :: "string option"
  context_running :: bool

fun current :: "source_ref \<Rightarrow> voice \<Rightarrow> nat option" where
  "current HeadRef s = headSourceRef s"
| "current LoopRef s = loopSourceRef s"
| "current TailRef s = tailSourceRef s"

fun set_current :: "source_ref \<Rightarrow> nat option \<Rightarrow> voice \<Rightarrow> voice" where
  "set_current HeadRef v s = s\<lparr>headSourceRef := v\<rparr>"
| "set_current LoopRef v s = s\<lparr>loopSourceRef := v\<rparr>"
| "set_current TailRef v s = s\<lparr>tailSourceRef := v\<rparr>"

text \<open>The platform's methods, applied to the node a name stands for.\<close>

definition source_start :: "nat \<Rightarrow> voice \<Rightarrow> dom_exception + voice" where
  "source_start i s =
     (case node_start (nodes s ! i) of
        Inl e \<Rightarrow> Inl e
      | Inr n \<Rightarrow> Inr (s\<lparr>nodes := (nodes s)[i := n]\<rparr>))"

definition source_stop :: "nat \<Rightarrow> voice \<Rightarrow> dom_exception + voice" where
  "source_stop i s =
     (case node_stop (nodes s ! i) of
        Inl e \<Rightarrow> Inl e
      | Inr n \<Rightarrow> Inr (s\<lparr>nodes := (nodes s)[i := n]\<rparr>))"

definition source_disconnect :: "nat \<Rightarrow> voice \<Rightarrow> voice" where
  "source_disconnect i s = s\<lparr>nodes := (nodes s)[i := node_disconnect (nodes s ! i)]\<rparr>"

definition addEventListener :: "nat \<Rightarrow> listener \<Rightarrow> voice \<Rightarrow> voice" where
  "addEventListener i l s =
     s\<lparr>nodes := (nodes s)[i := (nodes s ! i)\<lparr>ended_listeners := ended_listeners (nodes s ! i) @ [l]\<rparr>]\<rparr>"

definition set_onended :: "nat \<Rightarrow> listener \<Rightarrow> voice \<Rightarrow> voice" where
  "set_onended i l s = s\<lparr>nodes := (nodes s)[i := (nodes s ! i)\<lparr>onended := Some l\<rparr>]\<rparr>"

definition set_loop :: "nat \<Rightarrow> bool \<Rightarrow> voice \<Rightarrow> voice" where
  "set_loop i b s = s\<lparr>nodes := (nodes s)[i := (nodes s ! i)\<lparr>loop := b\<rparr>]\<rparr>"

subsection \<open>\<^verbatim>\<open>stopSourceRef\<close>\<close>

text \<open>
  \<^verbatim>\<open>try { headSource.stop() } catch (e) { }\<close>: the exception ends the \<^verbatim>\<open>try\<close> block and
  the program goes on from the state it had.
\<close>

definition stopSourceRef :: "source_ref \<Rightarrow> voice \<Rightarrow> dom_exception + voice" where
  "stopSourceRef sourceRef s =
     (case current sourceRef s of
        None \<Rightarrow> Inr (set_current sourceRef None s)
      | Some headSource \<Rightarrow>
          (let s1 = (case source_stop headSource s of Inl e \<Rightarrow> s | Inr s' \<Rightarrow> s');
               s2 = source_disconnect headSource s1
           in Inr (set_current sourceRef None s2)))"

subsection \<open>\<^verbatim>\<open>createSourceNode\<close>\<close>

definition createSourceNode :: "audio_buffer \<Rightarrow> real \<Rightarrow> nat list \<Rightarrow> bool \<Rightarrow> voice \<Rightarrow> nat \<times> voice" where
  "createSourceNode buf pitch dests lp s =
     (let node = new_buffer_source\<lparr>buffer := Some buf, loop := lp, playbackRate := pitch\<rparr>;
          node' = fold node_connect dests node
      in (length (nodes s), s\<lparr>nodes := nodes s @ [node']\<rparr>))"

subsection \<open>\<^verbatim>\<open>NoteButton\<close>: \<^verbatim>\<open>start\<close> and \<^verbatim>\<open>stop\<close>\<close>

definition note_of :: "NoteButtonProps \<Rightarrow> int" where
  "note_of props = 60 + octave props * 12 + tone props"

definition set_transform :: "string \<Rightarrow> voice \<Rightarrow> voice" where
  "set_transform v s = s\<lparr>button := map_option (\<lambda>old. v) (button s)\<rparr>"

definition start :: "NoteButtonProps \<Rightarrow> voice \<Rightarrow> dom_exception + voice" where
  "start props s0 =
     (let s1 = (if \<not> context_running s0 then s0\<lparr>context_running := True\<rparr> else s0);
          pitch = midiNoteToPitch (note_of props) / midiNoteToPitch 60;
          (headSource, s2) =
             createSourceNode (headBuffer props) pitch (destinationNodesProp props) False s1
      in case source_start headSource s2 of
           Inl e \<Rightarrow> Inl e
         | Inr s3 \<Rightarrow>
             (let s4 = s3\<lparr>headSourceRef := Some headSource\<rparr>;
                  (loopSource, s5) =
                     createSourceNode (loopBuffer props) pitch (destinationNodesProp props) True s4;
                  s6 = set_loop loopSource True s5;
                  s7 = s6\<lparr>loopSourceRef := Some loopSource\<rparr>;
                  (tailSource, s8) =
                     createSourceNode (tailBuffer props) pitch (destinationNodesProp props) False s7;
                  s9 = s8\<lparr>tailSourceRef := Some tailSource\<rparr>;
                  s10 = addEventListener headSource (StartLoopSource loopSource) s9
              in Inr (set_transform ''scale(0.8)'' s10)))"

definition stop :: "voice \<Rightarrow> dom_exception + voice" where
  "stop s0 =
     (let s1 = set_transform ''scale(1)'' s0
      in case stopSourceRef HeadRef s1 of
           Inl e \<Rightarrow> Inl e
         | Inr s2 \<Rightarrow>
             (case stopSourceRef LoopRef s2 of
                Inl e \<Rightarrow> Inl e
              | Inr s3 \<Rightarrow>
                  (case tailSourceRef s3 of
                     None \<Rightarrow> Inr s3
                   | Some tailSource \<Rightarrow>
                       (let s4 = (case source_start tailSource s3 of Inl e \<Rightarrow> s3 | Inr s' \<Rightarrow> s')
                        in Inr (set_onended tailSource StopTailSourceRef s4)))))"

subsection \<open>Events\<close>

text \<open>
  The platform fires \<^verbatim>\<open>ended\<close> on a source node once, after the node was started and
  either was stopped or, when it does not loop, has played its buffer to the end.
\<close>

definition can_end :: "nat \<Rightarrow> voice \<Rightarrow> bool" where
  "can_end i s =
     (i < length (nodes s) \<and> source_started (nodes s ! i) \<and> \<not> ended_fired (nodes s ! i) \<and>
      (stop_called (nodes s ! i) \<or> \<not> loop (nodes s ! i)))"

fun run_listener :: "listener \<Rightarrow> voice \<Rightarrow> dom_exception + voice" where
  "run_listener (StartLoopSource loopSource) s = source_start loopSource s"
| "run_listener StopTailSourceRef s = stopSourceRef TailRef s"

text \<open>
  Dispatch runs the listeners in turn; an exception a listener raises is reported and
  the dispatch goes on (each listener here is one call, so it raises before it changes
  anything).
\<close>

fun dispatch :: "listener list \<Rightarrow> voice \<Rightarrow> voice" where
  "dispatch [] s = s"
| "dispatch (l # ls) s = dispatch ls (case run_listener l s of Inl e \<Rightarrow> s | Inr s' \<Rightarrow> s')"

definition listeners_of :: "source_node \<Rightarrow> listener list" where
  "listeners_of n = ended_listeners n @ (case onended n of None \<Rightarrow> [] | Some l \<Rightarrow> [l])"

definition fire_ended :: "nat \<Rightarrow> voice \<Rightarrow> voice" where
  "fire_ended i s =
     (if can_end i s
      then dispatch (listeners_of (nodes s ! i))
             (s\<lparr>nodes := (nodes s)[i := (nodes s ! i)\<lparr>ended_fired := True\<rparr>]\<rparr>)
      else s)"

text \<open>
  The events a key receives, as the button wires them: mouse-down and touch-start call
  \<^verbatim>\<open>start\<close>; mouse-up, mouse-out and touch-end call \<^verbatim>\<open>stop\<close>. An event comes with the props
  of the render it reaches.
\<close>

datatype event = OnMouseDown | OnMouseUp | OnMouseOut | OnTouchStart | OnTouchEnd | Ended nat

text \<open>
  The state after a handler has run. \<^verbatim>\<open>start\<close> and \<^verbatim>\<open>stop\<close> never raise (\<open>start_total\<close>,
  \<open>stop_total\<close> below), so the first case never applies to them.
\<close>

definition call :: "dom_exception + voice \<Rightarrow> voice \<Rightarrow> voice" where
  "call result s = (case result of Inl e \<Rightarrow> s | Inr s' \<Rightarrow> s')"

fun handle_event :: "NoteButtonProps \<times> event \<Rightarrow> voice \<Rightarrow> voice" where
  "handle_event (props, OnMouseDown) s = call (start props s) s"
| "handle_event (props, OnTouchStart) s = call (start props s) s"
| "handle_event (props, OnMouseUp) s = call (stop s) s"
| "handle_event (props, OnMouseOut) s = call (stop s) s"
| "handle_event (props, OnTouchEnd) s = call (stop s) s"
| "handle_event (props, Ended i) s = fire_ended i s"

definition run :: "(NoteButtonProps \<times> event) list \<Rightarrow> voice \<Rightarrow> voice" where
  "run evs s = fold handle_event evs s"

text \<open>A key as it is mounted: no node, no handle, a button without a transform.\<close>

definition mounted :: voice where
  "mounted =
     \<lparr>nodes = [], headSourceRef = None, loopSourceRef = None, tailSourceRef = None,
      button = Some [], context_running = False\<rparr>"

text \<open>\<open>IDLE\<close>: the three handles are null.\<close>

definition idle :: "voice \<Rightarrow> bool" where
  "idle s = (headSourceRef s = None \<and> loopSourceRef s = None \<and> tailSourceRef s = None)"

text \<open>Every handle names a node that exists, and no two handles name the same node.\<close>

definition handles_valid :: "voice \<Rightarrow> bool" where
  "handles_valid s =
     ((case headSourceRef s of
         None \<Rightarrow> True
       | Some i \<Rightarrow> i < length (nodes s) \<and> loopSourceRef s \<noteq> Some i \<and> tailSourceRef s \<noteq> Some i) \<and>
      (case loopSourceRef s of
         None \<Rightarrow> True
       | Some i \<Rightarrow> i < length (nodes s) \<and> tailSourceRef s \<noteq> Some i) \<and>
      (case tailSourceRef s of None \<Rightarrow> True | Some i \<Rightarrow> i < length (nodes s)))"

text \<open>Which events call \<^verbatim>\<open>start\<close> and which call \<^verbatim>\<open>stop\<close>.\<close>

fun calls_start :: "event \<Rightarrow> bool" where
  "calls_start OnMouseDown = True"
| "calls_start OnTouchStart = True"
| "calls_start e = False"

fun calls_stop :: "event \<Rightarrow> bool" where
  "calls_stop OnMouseUp = True"
| "calls_stop OnMouseOut = True"
| "calls_stop OnTouchEnd = True"
| "calls_stop e = False"

text \<open>
  The state of a key whose voice, created when the key had \<open>L\<close> nodes, has been
  released: head and loop handle are null, every node but the tail is disconnected, and
  the tail is started, carries its completion handler and is still named by its handle
  or else disconnected.
\<close>

definition tail_pending :: "nat \<Rightarrow> voice \<Rightarrow> bool" where
  "tail_pending L s =
     (length (nodes s) = L + 3 \<and> headSourceRef s = None \<and> loopSourceRef s = None \<and>
      (\<forall>i < L + 2. outputs (nodes s ! i) = []) \<and>
      (tailSourceRef s = Some (L + 2) \<or>
       tailSourceRef s = None \<and> outputs (nodes s ! (L + 2)) = []) \<and>
      source_started (nodes s ! (L + 2)) \<and> \<not> loop (nodes s ! (L + 2)) \<and>
      ended_listeners (nodes s ! (L + 2)) = [] \<and>
      onended (nodes s ! (L + 2)) = Some StopTailSourceRef)"

definition tail_done :: "nat \<Rightarrow> voice \<Rightarrow> bool" where
  "tail_done L s = (ended_fired (nodes s ! (L + 2)) \<longrightarrow> tailSourceRef s = None)"


section \<open>Derived forms and example data\<close>

text \<open>The node \<^verbatim>\<open>createSourceNode\<close> appends.\<close>

definition created :: "audio_buffer \<Rightarrow> real \<Rightarrow> nat list \<Rightarrow> bool \<Rightarrow> source_node" where
  "created buf pitch dests lp =
     fold node_connect dests (new_buffer_source\<lparr>buffer := Some buf, loop := lp, playbackRate := pitch\<rparr>)"

text \<open>What \<^verbatim>\<open>stopSourceRef\<close> does to the node its handle names: stop, caught, then disconnect.\<close>

definition released :: "source_node \<Rightarrow> source_node" where
  "released n = node_disconnect (case node_stop n of Inl e \<Rightarrow> n | Inr n' \<Rightarrow> n')"

text \<open>What \<^verbatim>\<open>stop\<close> does to the tail node: start, caught, then the \<^verbatim>\<open>onended\<close> handler.\<close>

definition armed :: "source_node \<Rightarrow> source_node" where
  "armed n = (case node_start n of Inl e \<Rightarrow> n | Inr n' \<Rightarrow> n')\<lparr>onended := Some StopTailSourceRef\<rparr>"

definition node_gain :: "graph_node \<Rightarrow> rat" where
  "node_gain n = (case n of GainNode g outs \<Rightarrow> g | _ \<Rightarrow> 0)"

text \<open>Middle C before the reverb graph exists, and the outcomes of three loads.\<close>

definition example_key :: NoteButtonProps where
  "example_key =
     \<lparr>tone = 0, octave = 0, destinationNodesProp = [destination],
      headBuffer = AudioBuffer ''head.wav'', loopBuffer = AudioBuffer ''loop.wav'',
      tailBuffer = AudioBuffer ''tail.wav''\<rparr>"

definition loaded :: "string \<Rightarrow> audio_buffer swr_response" where
  "loaded src = useSampleData (Some (Fulfilled (AudioBuffer src)))"

definition in_flight :: "audio_buffer swr_response" where
  "in_flight = useSampleData None"

definition failed :: "audio_buffer swr_response" where
  "failed =
     useSampleData (Some (fetcher (Fulfilled (Response False [])) (\<lambda>b. Fulfilled (AudioBuffer b))))"


section \<open>Properties of the naming utility\<close>

lemma js_rem_nonneg: "0 \<le> n \<Longrightarrow> js_rem n 12 = n mod 12"
  by (cases "n = 0") (simp_all add: js_rem_def)

lemma js_rem_dvd: "12 dvd n \<Longrightarrow> js_rem n 12 = n mod 12"
  by (auto simp add: js_rem_def)

lemma js_rem_negative:
  assumes "n < 0" "\<not> 12 dvd n"
  shows "js_rem n 12 < 0"
proof -
  have "(- n) mod 12 \<noteq> 0"
    using assms(2) by (simp add: mod_eq_0_iff_dvd)
  moreover have "0 \<le> (- n) mod 12"
    by simp
  ultimately have "0 < (- n) mod 12"
    by linarith
  with assms(1) show ?thesis
    by (simp add: js_rem_def)
qed

lemma safe_octave_printed:
  assumes "safe_integer n"
  shows "number_to_string (n div 12 - 1) = Some (decimal (n div 12 - 1))"
proof -
  have "- 9007199254740991 \<le> n" "n \<le> 9007199254740991"
    using assms by (simp_all add: safe_integer_def abs_le_iff)
  then have "\<bar>n div 12 - 1\<bar> < 1000000000000000000000"
    by arith
  then show ?thesis
    by (simp add: number_to_string_def)
qed

text \<open>
  Below zero, off the multiples of twelve, the index is negative and the name read from
  the array is \<^verbatim>\<open>undefined\<close>.
\<close>

lemma midiNoteToName_undefined_below_zero:
  assumes "safe_integer n" "n < 0" "\<not> 12 dvd n"
  shows "midiNoteToName n = Some (''undefined'' @ decimal (n div 12 - 1))"
  using js_rem_negative [OF assms(2,3)] assms(1)
  by (simp add: midiNoteToName_def safe_octave_printed array_get_def template_string_def)

text \<open>
  C5, as the code has it: for every safe integer \<open>n\<close> (magnitude at most \<open>2^53 - 1\<close>)
  that is not negative or is a multiple of twelve, \<^verbatim>\<open>midiNoteToName\<close> returns the
  pitch-class name at index \<open>n mod 12\<close> of the twelve names followed by the octave
  \<open>floor (n / 12) - 1\<close> in decimal digits.
\<close>

theorem midiNoteToName_cycles:
  assumes "safe_integer n" and "0 \<le> n \<or> 12 dvd n"
  shows "midiNoteToName n = Some (displayName_spec n)"
proof -
  have r: "js_rem n 12 = n mod 12"
    using assms(2) js_rem_nonneg js_rem_dvd by blast
  have "array_get names (n mod 12) = Some (names ! nat (n mod 12))"
    by (simp add: array_get_def names_def)
  with r assms(1) show ?thesis
    by (simp add: midiNoteToName_def safe_octave_printed displayName_spec_def template_string_def)
qed

theorem midiNoteToName_cycles_witness:
  "safe_integer 61 \<and> (0::int) \<le> 61 \<and> midiNoteToName 61 = Some ''C#4'' \<and>
   displayName_spec 61 = ''C#4'' \<and>
   safe_integer (- 12) \<and> midiNoteToName (- 12) = Some ''C-2'' \<and> displayName_spec (- 12) = ''C-2''"
  using midiNoteToName_cycles [of 61] midiNoteToName_cycles [of "- 12"]
  by (simp add: safe_integer_def displayName_spec_def decimal_def nat_to_string.simps
      digit_char_def names_def)

text \<open>
  C5 as stated fails below zero: \<^verbatim>\<open>-1 % 12\<close> is \<^verbatim>\<open>-1\<close>, the array has no such index, and
  the name of note \<open>-1\<close> comes out as \<^verbatim>\<open>undefined-2\<close> where the cycle gives \<^verbatim>\<open>B-2\<close>.
\<close>

theorem midiNoteToName_negative_counterexample:
  "safe_integer (- 1) \<and> midiNoteToName (- 1) = Some ''undefined-2'' \<and>
   displayName_spec (- 1) = ''B-2'' \<and> midiNoteToName (- 1) \<noteq> Some (displayName_spec (- 1))"
  by (simp add: safe_integer_def midiNoteToName_def number_to_string_def displayName_spec_def
      js_rem_def array_get_def template_string_def decimal_def nat_to_string.simps digit_char_def
      names_def)


section \<open>Properties of the application shell\<close>

text \<open>
  C7: before the impulse response has resolved the destination set is the output alone
  and the effect changes nothing; once it has resolved the effect builds a convolver
  bound to it and connected to the output, a dry gain of 0.8 connected to the output and
  a wet gain of 0.2 connected to the convolver, and the destination set becomes the two
  gains: two routes to the output, gains that sum to 1.
\<close>

theorem destination_set_before_and_after:
  "destinationNodes App_init = [destination] \<and>
   convolution_effect \<lparr>data = None, error = e\<rparr> App_init = App_init \<and>
   graph (convolution_effect \<lparr>data = Some ir, error = e\<rparr> App_init) =
     [DestinationNode, ConvolverNode ir [destination], GainNode (8 / 10) [destination],
      GainNode (2 / 10) [1]] \<and>
   destinationNodes (convolution_effect \<lparr>data = Some ir, error = e\<rparr> App_init) = [2, 3] \<and>
   sum_list (map (routes_to_output 3 (graph (convolution_effect \<lparr>data = Some ir, error = e\<rparr> App_init)))
     (destinationNodes (convolution_effect \<lparr>data = Some ir, error = e\<rparr> App_init))) = 2 \<and>
   sum_list (map (\<lambda>d. node_gain (graph (convolution_effect \<lparr>data = Some ir, error = e\<rparr> App_init) ! d))
     (destinationNodes (convolution_effect \<lparr>data = Some ir, error = e\<rparr> App_init))) = 1"
  by (simp add: App_init_def convolution_effect_def destination_def Let_def node_gain_def numeral_3_eq_3)

text \<open>
  C4, as the code has it: the grid shows the loading message exactly while the head,
  loop or tail buffer is missing, whether it is still in flight or has failed, and shows
  the keys otherwise. The impulse response and the errors play no part, and no error
  display exists.
\<close>

theorem App_display:
  "display_of (App h l t c a) =
     (if data h = None \<or> data l = None \<or> data t = None then LoadingDisplay else GridDisplay)"
  by (simp add: App_def display_of_def)

theorem App_display_witness:
  "data failed = None \<and> error failed = Some ''Failed to fetch audio'' \<and>
   App failed (loaded ''loop.wav'') (loaded ''tail.wav'') (loaded ''teufelsberg.wav'') App_init =
     Message ''Loading samples...'' \<and>
   display_of (App failed (loaded ''loop.wav'') (loaded ''tail.wav'') (loaded ''teufelsberg.wav'') App_init) =
     LoadingDisplay"
  using App_display [of failed "loaded ''loop.wav''" "loaded ''tail.wav''" "loaded ''teufelsberg.wav''" App_init]
  by (simp add: App_def failed_def loaded_def useSampleData_def fetcher_def)

text \<open>
  C4 as stated fails twice: with the three samples loaded and the impulse response
  still in flight the keys are shown, and with a failed head sample the loading message
  is shown, not an error.
\<close>

theorem App_display_counterexample:
  "display_of (App (loaded ''head.wav'') (loaded ''loop.wav'') (loaded ''tail.wav'') in_flight App_init) =
     GridDisplay \<and>
   display_spec (loaded ''head.wav'') (loaded ''loop.wav'') (loaded ''tail.wav'') in_flight =
     LoadingDisplay \<and>
   display_of (App failed (loaded ''loop.wav'') (loaded ''tail.wav'') (loaded ''teufelsberg.wav'') App_init) =
     LoadingDisplay \<and>
   display_spec failed (loaded ''loop.wav'') (loaded ''tail.wav'') (loaded ''teufelsberg.wav'') =
     ErrorDisplay"
  by (simp add: App_def display_of_def display_spec_def failed_def loaded_def in_flight_def
      useSampleData_def fetcher_def)


section \<open>Properties of \<^verbatim>\<open>stop\<close>\<close>

lemma stopSourceRef_eq:
  "stopSourceRef r s =
     Inr (set_current r None
       (case current r s of
          None \<Rightarrow> s
        | Some i \<Rightarrow> s\<lparr>nodes := (nodes s)[i := released (nodes s ! i)]\<rparr>))"
proof (cases "current r s")
  case None
  then show ?thesis by (simp add: stopSourceRef_def)
next
  case (Some i)
  show ?thesis
  proof (cases "i < length (nodes s)")
    case True
    with Some show ?thesis
      by (simp add: stopSourceRef_def source_stop_def source_disconnect_def released_def
          split: sum.splits)
  next
    case False
    with Some show ?thesis
      by (simp add: stopSourceRef_def source_stop_def source_disconnect_def released_def
          list_update_beyond split: sum.splits)
  qed
qed

lemma stop_eq:
  "stop s =
     Inr (let s1 = set_transform ''scale(1)'' s;
              s2 = set_current HeadRef None
                     (case headSourceRef s1 of None \<Rightarrow> s1
                      | Some i \<Rightarrow> s1\<lparr>nodes := (nodes s1)[i := released (nodes s1 ! i)]\<rparr>);
              s3 = set_current LoopRef None
                     (case loopSourceRef s2 of None \<Rightarrow> s2
                      | Some i \<Rightarrow> s2\<lparr>nodes := (nodes s2)[i := released (nodes s2 ! i)]\<rparr>)
          in case tailSourceRef s3 of None \<Rightarrow> s3
             | Some t \<Rightarrow> s3\<lparr>nodes := (nodes s3)[t := armed (nodes s3 ! t)]\<rparr>)"
proof -
  have arm: "set_onended t StopTailSourceRef (case source_start t z of Inl e \<Rightarrow> z | Inr s' \<Rightarrow> s') =
      z\<lparr>nodes := (nodes z)[t := armed (nodes z ! t)]\<rparr>" for t z
    by (cases "t < length (nodes z)")
      (simp_all add: set_onended_def source_start_def armed_def list_update_beyond
        split: sum.splits)
  show ?thesis
    by (simp add: stop_def stopSourceRef_eq arm Let_def split: option.splits)
qed

lemma stop_total: "\<exists>s'. stop s = Inr s'"
  by (simp add: stop_eq)

lemma armed_armed: "armed (armed n) = armed n"
  by (simp add: armed_def node_start_def)

text \<open>
  C9: in \<open>IDLE\<close>, \<^verbatim>\<open>stop\<close> returns without an error and touches nothing but the button's
  transform: the nodes are the same and the three handles are still null.
\<close>

theorem stop_idle:
  assumes "idle s"
  shows "stop s = Inr (set_transform ''scale(1)'' s) \<and>
         nodes (set_transform ''scale(1)'' s) = nodes s \<and>
         idle (set_transform ''scale(1)'' s) \<and>
         context_running (set_transform ''scale(1)'' s) = context_running s"
  using assms by (simp add: stop_eq idle_def set_transform_def Let_def)

theorem stop_idle_witness:
  "idle mounted \<and> stop mounted = Inr (mounted\<lparr>button := Some ''scale(1)''\<rparr>) \<and>
   nodes (mounted\<lparr>button := Some ''scale(1)''\<rparr>) = [] \<and>
   idle (mounted\<lparr>button := Some ''scale(1)''\<rparr>)"
  using stop_idle [of mounted]
  by (simp add: idle_def mounted_def set_transform_def)

text \<open>
  C10: in every voice state, the reachable ones among them, a second \<^verbatim>\<open>stop\<close> right
  after the first returns the state the first one left: handles, nodes and connections.
\<close>

theorem stop_twice:
  "\<exists>s1. stop s = Inr s1 \<and> stop s1 = Inr s1"
proof -
  obtain s1 where s1: "stop s = Inr s1"
    using stop_total by blast
  have h: "headSourceRef s1 = None" and l: "loopSourceRef s1 = None"
    and b: "button s1 = map_option (\<lambda>old. ''scale(1)'') (button s)"
    using s1 by (auto simp add: stop_eq Let_def set_transform_def split: option.splits)
  have t: "tailSourceRef s1 = Some t \<Longrightarrow> t < length (nodes s1) \<Longrightarrow> armed (nodes s1 ! t) = nodes s1 ! t" for t
    using s1 by (auto simp add: stop_eq Let_def set_transform_def armed_armed split: option.splits)
  have tr: "set_transform ''scale(1)'' s1 = s1"
    using b by (cases "button s") (simp_all add: set_transform_def)
  have "stop s1 = Inr s1"
  proof (cases "tailSourceRef s1")
    case None
    then show ?thesis using h l tr by (simp add: stop_eq Let_def)
  next
    case (Some t)
    show ?thesis
    proof (cases "t < length (nodes s1)")
      case True
      with Some h l tr t [OF Some True] show ?thesis by (simp add: stop_eq Let_def)
    next
      case False
      with Some h l tr show ?thesis by (simp add: stop_eq Let_def list_update_beyond)
    qed
  qed
  with s1 show ?thesis by blast
qed


section \<open>Properties of \<^verbatim>\<open>start\<close>\<close>

lemma fold_node_connect_fields:
  "source_started (fold node_connect ds n) = source_started n \<and>
   stop_called (fold node_connect ds n) = stop_called n \<and>
   ended_fired (fold node_connect ds n) = ended_fired n \<and>
   ended_listeners (fold node_connect ds n) = ended_listeners n \<and>
   onended (fold node_connect ds n) = onended n \<and>
   loop (fold node_connect ds n) = loop n \<and>
   buffer (fold node_connect ds n) = buffer n \<and>
   playbackRate (fold node_connect ds n) = playbackRate n \<and>
   set (outputs (fold node_connect ds n)) = set (outputs n) \<union> set ds"
  by (induction ds arbitrary: n) (auto simp add: node_connect_def)

lemma created_fields [simp]:
  "source_started (created b r ds lp) = False"
  "stop_called (created b r ds lp) = False"
  "ended_fired (created b r ds lp) = False"
  "ended_listeners (created b r ds lp) = []"
  "onended (created b r ds lp) = None"
  "loop (created b r ds lp) = lp"
  "buffer (created b r ds lp) = Some b"
  "playbackRate (created b r ds lp) = r"
  "set (outputs (created b r ds lp)) = set ds"
  using fold_node_connect_fields [of ds "new_buffer_source\<lparr>buffer := Some b, loop := lp, playbackRate := r\<rparr>"]
  by (simp_all add: created_def new_buffer_source_def)

lemma created_live: "live (created b r ds lp) = (ds \<noteq> [])"
  unfolding live_def by (metis created_fields(9) set_empty)

lemma created_loop_id: "(created b r ds True)\<lparr>loop := True\<rparr> = created b r ds True"
  by (rule source_node.equality) simp_all

lemma start_eq:
  "start props s =
     Inr (s\<lparr>nodes := nodes s @
            [(created (headBuffer props) (pitchRatio (note_of props)) (destinationNodesProp props) False)
               \<lparr>source_started := True, ended_listeners := [StartLoopSource (Suc (length (nodes s)))]\<rparr>,
             created (loopBuffer props) (pitchRatio (note_of props)) (destinationNodesProp props) True,
             created (tailBuffer props) (pitchRatio (note_of props)) (destinationNodesProp props) False],
          headSourceRef := Some (length (nodes s)),
          loopSourceRef := Some (Suc (length (nodes s))),
          tailSourceRef := Some (Suc (Suc (length (nodes s)))),
          button := map_option (\<lambda>old. ''scale(0.8)'') (button s),
          context_running := True\<rparr>)"
  by (simp add: start_def createSourceNode_def source_start_def node_start_def set_loop_def
      addEventListener_def set_transform_def pitchRatio_def created_def [symmetric] Let_def
      nth_append created_loop_id)

lemma nth_append_Suc: "(xs @ a # b # ys) ! Suc (length xs) = b"
  by (simp add: nth_append)

lemma nth_append_Suc_Suc: "(xs @ a # b # c # ys) ! Suc (Suc (length xs)) = c"
  by (simp add: nth_append)

lemma update_append_Suc: "(xs @ a # b # ys)[Suc (length xs) := v] = xs @ a # v # ys"
  by (simp add: list_update_append)

lemma update_append_Suc_Suc: "(xs @ a # b # c # ys)[Suc (Suc (length xs)) := v] = xs @ a # b # v # ys"
  by (simp add: list_update_append)

lemmas at_end = nth_append_length nth_append_Suc nth_append_Suc_Suc
  list_update_length update_append_Suc update_append_Suc_Suc

lemma start_total: "\<exists>s'. start props s = Inr s'"
  by (simp add: start_eq)

lemma handle_start: "calls_start e \<Longrightarrow> handle_event (p, e) s = call (start p s) s"
  by (cases e) simp_all

lemma handle_stop: "calls_stop e \<Longrightarrow> handle_event (p, e) s = call (stop s) s"
  by (cases e) simp_all

lemma nodes_mounted: "nodes mounted = []"
  by (simp add: mounted_def)

text \<open>The equations that evaluate a trace of events on a given state.\<close>

lemmas trace_eval = run_def call_def start_eq stop_eq fire_ended_def can_end_def listeners_of_def
  source_start_def node_start_def stopSourceRef_eq released_def armed_def node_stop_def
  node_disconnect_def set_transform_def mounted_def Let_def nth_Cons' live_def playing_def
  audible_def idle_def


section \<open>A released voice stays released\<close>

lemma listener_step_pending:
  assumes "tail_pending L s"
  shows "tail_pending L (call (run_listener l s) s)"
proof (cases l)
  case (StartLoopSource j)
  show ?thesis
  proof (cases "j < length (nodes s)")
    case True
    with assms StartLoopSource show ?thesis
      by (auto simp add: call_def source_start_def node_start_def tail_pending_def nth_list_update)
  next
    case False
    with assms StartLoopSource show ?thesis
      by (auto simp add: call_def source_start_def node_start_def tail_pending_def list_update_beyond)
  qed
next
  case StopTailSourceRef
  with assms show ?thesis
    by (auto simp add: call_def stopSourceRef_eq tail_pending_def released_def node_disconnect_def
        node_stop_def nth_list_update split: sum.splits)
qed

lemma listener_step_flags:
  "length (nodes (call (run_listener l s) s)) = length (nodes s) \<and>
   (\<forall>i. ended_fired (nodes (call (run_listener l s) s) ! i) = ended_fired (nodes s ! i)) \<and>
   (tailSourceRef s = None \<longrightarrow> tailSourceRef (call (run_listener l s) s) = None) \<and>
   (l = StopTailSourceRef \<longrightarrow> tailSourceRef (call (run_listener l s) s) = None)"
proof (cases l)
  case (StartLoopSource j)
  show ?thesis
  proof (cases "j < length (nodes s)")
    case True
    with StartLoopSource show ?thesis
      by (auto simp add: call_def source_start_def node_start_def nth_list_update)
  next
    case False
    with StartLoopSource show ?thesis
      by (auto simp add: call_def source_start_def node_start_def list_update_beyond)
  qed
next
  case StopTailSourceRef
  show ?thesis
  proof (cases "tailSourceRef s")
    case None
    with StopTailSourceRef show ?thesis by (simp add: call_def stopSourceRef_eq)
  next
    case (Some t)
    show ?thesis
    proof (cases "t < length (nodes s)")
      case True
      with Some StopTailSourceRef show ?thesis
        by (auto simp add: call_def stopSourceRef_eq released_def node_disconnect_def
          node_stop_def nth_list_update split: sum.splits)
    next
      case False
      with Some StopTailSourceRef show ?thesis
        by (auto simp add: call_def stopSourceRef_eq list_update_beyond)
    qed
  qed
qed

lemma dispatch_call: "dispatch (l # ls) s = dispatch ls (call (run_listener l s) s)"
  by (simp add: call_def)

lemma dispatch_pending:
  "tail_pending L s \<Longrightarrow> tail_pending L (dispatch ls s)"
proof (induction ls arbitrary: s)
  case Nil
  then show ?case by simp
next
  case (Cons l ls)
  have "tail_pending L (call (run_listener l s) s)"
    using Cons.prems by (rule listener_step_pending)
  then have "tail_pending L (dispatch ls (call (run_listener l s) s))"
    by (rule Cons.IH)
  then show ?case by (simp only: dispatch_call)
qed

lemma dispatch_flags:
  "length (nodes (dispatch ls s)) = length (nodes s) \<and>
   (\<forall>i. ended_fired (nodes (dispatch ls s) ! i) = ended_fired (nodes s ! i)) \<and>
   (tailSourceRef s = None \<longrightarrow> tailSourceRef (dispatch ls s) = None) \<and>
   (StopTailSourceRef \<in> set ls \<longrightarrow> tailSourceRef (dispatch ls s) = None)"
proof (induction ls arbitrary: s)
  case Nil
  then show ?case by simp
next
  case (Cons l ls)
  show ?case
    using listener_step_flags [of l s] Cons.IH [of "call (run_listener l s) s"]
    by (auto simp only: dispatch_call set_simps insert_iff)
qed


lemma set_ended_pending:
  assumes "tail_pending L s"
  shows "tail_pending L (s\<lparr>nodes := (nodes s)[i := (nodes s ! i)\<lparr>ended_fired := True\<rparr>]\<rparr>)"
proof (cases "i < length (nodes s)")
  case True
  with assms show ?thesis
    by (auto simp add: tail_pending_def nth_list_update)
next
  case False
  with assms show ?thesis
    by (simp add: list_update_beyond)
qed

lemma fire_ended_pending:
  assumes "tail_pending L s"
  shows "tail_pending L (fire_ended i s)"
  using assms by (simp add: fire_ended_def dispatch_pending set_ended_pending)

lemma fire_ended_done:
  assumes p: "tail_pending L s" and d: "tail_done L s"
  shows "tail_done L (fire_ended i s)"
proof (cases "can_end i s")
  case False
  with d show ?thesis by (simp add: fire_ended_def)
next
  case True
  define s' where "s' = s\<lparr>nodes := (nodes s)[i := (nodes s ! i)\<lparr>ended_fired := True\<rparr>]\<rparr>"
  have fe: "fire_ended i s = dispatch (listeners_of (nodes s ! i)) s'"
    using True by (simp add: fire_ended_def s'_def)
  have len: "i < length (nodes s)"
    using True by (simp add: can_end_def)
  show ?thesis
  proof (cases "i = L + 2")
    case True
    with p have "StopTailSourceRef \<in> set (listeners_of (nodes s ! i))"
      by (simp add: tail_pending_def listeners_of_def)
    then have "tailSourceRef (dispatch (listeners_of (nodes s ! i)) s') = None"
      using dispatch_flags by blast
    then show ?thesis by (simp add: fe tail_done_def)
  next
    case False
    have "ended_fired (nodes (fire_ended i s) ! (L + 2)) = ended_fired (nodes s' ! (L + 2))"
      using dispatch_flags [of "listeners_of (nodes s ! i)" s'] by (simp add: fe)
    also have "\<dots> = ended_fired (nodes s ! (L + 2))"
      using False len by (simp add: s'_def nth_list_update)
    finally have same: "ended_fired (nodes (fire_ended i s) ! (L + 2)) = ended_fired (nodes s ! (L + 2))" .
    have "tailSourceRef s' = tailSourceRef s"
      by (simp add: s'_def)
    then have keep: "tailSourceRef s = None \<Longrightarrow> tailSourceRef (fire_ended i s) = None"
      using dispatch_flags [of "listeners_of (nodes s ! i)" s'] by (simp add: fe)
    show ?thesis
      using d same keep by (simp add: tail_done_def)
  qed
qed

lemma stop_pending:
  assumes "tail_pending L s"
  shows "tail_pending L (call (stop s) s)"
  using assms
  by (auto simp add: call_def stop_eq Let_def set_transform_def tail_pending_def armed_def
      node_start_def nth_list_update)

lemma stop_done:
  assumes "tail_pending L s" "tail_done L s"
  shows "tail_done L (call (stop s) s)"
  using assms
  by (auto simp add: call_def stop_eq Let_def set_transform_def tail_pending_def tail_done_def
      armed_def node_start_def nth_list_update)

lemma handle_event_released:
  assumes "tail_pending L s" "tail_done L s" "\<not> calls_start (snd pe)"
  shows "tail_pending L (handle_event pe s) \<and> tail_done L (handle_event pe s)"
proof (cases pe)
  case (Pair props e)
  with assms show ?thesis
    by (cases e) (simp_all add: stop_pending stop_done fire_ended_pending fire_ended_done)
qed

lemma run_released:
  assumes "tail_pending L s" "tail_done L s" "\<forall>pe \<in> set evs. \<not> calls_start (snd pe)"
  shows "tail_pending L (run evs s) \<and> tail_done L (run evs s)"
  using assms
proof (induction evs arbitrary: s)
  case Nil
  then show ?case by (simp add: run_def)
next
  case (Cons pe evs)
  have "tail_pending L (handle_event pe s) \<and> tail_done L (handle_event pe s)"
    using Cons.prems by (simp add: handle_event_released)
  then have "tail_pending L (run evs (handle_event pe s)) \<and> tail_done L (run evs (handle_event pe s))"
    using Cons.prems by (simp add: Cons.IH)
  then show ?case by (simp add: run_def)
qed


lemma start_stop_eq:
  "call (stop (call (start props s) s)) (call (start props s) s) =
     s\<lparr>nodes := nodes s @
         [released ((created (headBuffer props) (pitchRatio (note_of props)) (destinationNodesProp props) False)
               \<lparr>source_started := True, ended_listeners := [StartLoopSource (Suc (length (nodes s)))]\<rparr>),
          released (created (loopBuffer props) (pitchRatio (note_of props)) (destinationNodesProp props) True),
          armed (created (tailBuffer props) (pitchRatio (note_of props)) (destinationNodesProp props) False)],
       headSourceRef := None, loopSourceRef := None,
       tailSourceRef := Some (Suc (Suc (length (nodes s)))),
       button := map_option (\<lambda>old. ''scale(1)'') (button s),
       context_running := True\<rparr>"
  by (simp add: call_def start_eq stop_eq Let_def set_transform_def at_end option.map_comp comp_def)

lemma start_stop_pending:
  assumes "\<forall>n \<in> set (nodes s). \<not> live n"
  shows "tail_pending (length (nodes s)) (call (stop (call (start props s) s)) (call (start props s) s))"
proof -
  have old: "outputs (nodes s ! i) = []" if "i < length (nodes s)" for i
    using assms that by (simp add: live_def)
  have split: "i < length (nodes s) \<or> i = length (nodes s) \<or> i = Suc (length (nodes s))"
    if "i < length (nodes s) + 2" for i
    using that by arith
  have quiet: "outputs ((nodes s @ [released h, released l, t]) ! i) = []"
    if "i < length (nodes s) + 2" for i h l t
    using split [OF that] old
    by (auto simp add: at_end nth_append released_def node_disconnect_def)
  show ?thesis
    unfolding start_stop_eq tail_pending_def
    by (simp add: at_end quiet armed_def node_start_def)
qed

lemma start_stop_done:
  "tail_done (length (nodes s)) (call (stop (call (start props s) s)) (call (start props s) s))"
  unfolding start_stop_eq tail_done_def
  by (simp add: at_end armed_def node_start_def)


lemma fire_ended_sets_flag:
  assumes "i < length (nodes s)" "source_started (nodes s ! i)" "\<not> loop (nodes s ! i)"
  shows "ended_fired (nodes (fire_ended i s) ! i)"
proof (cases "can_end i s")
  case True
  then show ?thesis
    using assms(1) dispatch_flags [of "listeners_of (nodes s ! i)"
        "s\<lparr>nodes := (nodes s)[i := (nodes s ! i)\<lparr>ended_fired := True\<rparr>]\<rparr>"]
    by (simp add: fire_ended_def)
next
  case False
  with assms show ?thesis by (simp add: fire_ended_def can_end_def)
qed

lemma released_silent:
  assumes p: "tail_pending L s" and d: "tail_done L s"
  shows "\<not> live (nodes s ! (L + 1))"
    and "\<forall>i < length (nodes s). live (nodes s ! i) \<longrightarrow>
           i = L + 2 \<and> \<not> ended_fired (nodes s ! i) \<and> tailSourceRef s = Some i"
    and "ended_fired (nodes s ! (L + 2)) \<longrightarrow> idle s \<and> (\<forall>n \<in> set (nodes s). \<not> live n)"
    and "idle s \<longrightarrow> (\<forall>n \<in> set (nodes s). \<not> audible n)"
    and "\<not> ended_fired (nodes s ! (L + 2)) \<longrightarrow> can_end (L + 2) s"
proof -
  have len: "length (nodes s) = L + 3"
    using p by (simp add: tail_pending_def)
  have quiet: "outputs (nodes s ! i) = []" if "i < L + 2" for i
    using p that by (simp add: tail_pending_def)
  have tail: "tailSourceRef s = None \<Longrightarrow> outputs (nodes s ! (L + 2)) = []"
    using p by (auto simp add: tail_pending_def)
  have ref: "tailSourceRef s = None \<or> tailSourceRef s = Some (L + 2)"
    using p by (auto simp add: tail_pending_def)
  have split: "i < L + 2 \<or> i = L + 2" if "i < length (nodes s)" for i
    using that len by arith
  show "\<not> live (nodes s ! (L + 1))"
    using quiet [of "L + 1"] by (simp add: live_def)
  show c: "\<forall>i < length (nodes s). live (nodes s ! i) \<longrightarrow>
           i = L + 2 \<and> \<not> ended_fired (nodes s ! i) \<and> tailSourceRef s = Some i"
  proof (intro allI impI)
    fix i assume i: "i < length (nodes s)" and con: "live (nodes s ! i)"
    have "i = L + 2"
      using split [OF i] quiet [of i] con by (auto simp add: live_def)
    moreover have "tailSourceRef s = Some (L + 2)"
      using ref tail con \<open>i = L + 2\<close> by (auto simp add: live_def)
    moreover have "\<not> ended_fired (nodes s ! (L + 2))"
      using d \<open>tailSourceRef s = Some (L + 2)\<close> by (auto simp add: tail_done_def)
    ultimately show "i = L + 2 \<and> \<not> ended_fired (nodes s ! i) \<and> tailSourceRef s = Some i"
      by simp
  qed
  have none: "\<forall>n \<in> set (nodes s). \<not> live n" if "tailSourceRef s = None"
  proof
    fix n assume "n \<in> set (nodes s)"
    then obtain i where i: "i < length (nodes s)" "n = nodes s ! i"
      by (auto simp add: in_set_conv_nth)
    show "\<not> live n"
      using c i that by auto
  qed
  show "ended_fired (nodes s ! (L + 2)) \<longrightarrow> idle s \<and> (\<forall>n \<in> set (nodes s). \<not> live n)"
    using p d none by (auto simp add: tail_pending_def tail_done_def idle_def)
  show "idle s \<longrightarrow> (\<forall>n \<in> set (nodes s). \<not> audible n)"
    using none by (auto simp add: idle_def audible_def)
  show "\<not> ended_fired (nodes s ! (L + 2)) \<longrightarrow> can_end (L + 2) s"
    using p by (auto simp add: tail_pending_def can_end_def)
qed


section \<open>The life of a voice\<close>

text \<open>
  The release of a voice where nothing else sounds. On a key none of whose nodes is
  connected, a start gesture followed by a stop gesture leaves the loop node disconnected
  whatever completion events and further stops follow, the stale head-completion callback
  among them: the only node that is still connected is the tail, until it has ended; once
  the tail has ended the key is in \<open>IDLE\<close> and no node is connected; in \<open>IDLE\<close> no node is
  heard; the tail's completion stays due until it has fired, and when it fires the key is
  in \<open>IDLE\<close> with no node connected.
\<close>

theorem stop_before_head_completes:
  fixes s0 :: voice and p p' :: NoteButtonProps and e1 e2 :: event
    and evs :: "(NoteButtonProps \<times> event) list"
  defines "L \<equiv> length (nodes s0)"
  defines "s \<equiv> run ((p, e1) # (p', e2) # evs) s0"
  assumes quiet: "\<forall>n \<in> set (nodes s0). \<not> live n"
    and gesture: "calls_start e1" "calls_stop e2"
    and later: "\<forall>pe \<in> set evs. \<not> calls_start (snd pe)"
  shows "\<not> live (nodes s ! (L + 1)) \<and>
         (\<forall>i < length (nodes s). live (nodes s ! i) \<longrightarrow>
            i = L + 2 \<and> \<not> ended_fired (nodes s ! i) \<and> tailSourceRef s = Some i) \<and>
         (ended_fired (nodes s ! (L + 2)) \<longrightarrow> idle s \<and> (\<forall>n \<in> set (nodes s). \<not> live n)) \<and>
         (idle s \<longrightarrow> (\<forall>n \<in> set (nodes s). \<not> audible n)) \<and>
         (\<not> ended_fired (nodes s ! (L + 2)) \<longrightarrow> can_end (L + 2) s) \<and>
         idle (fire_ended (L + 2) s) \<and>
         (\<forall>n \<in> set (nodes (fire_ended (L + 2) s)). \<not> live n)"
proof -
  let ?s1 = "call (start p s0) s0"
  let ?s2 = "call (stop ?s1) ?s1"
  have s: "s = run evs ?s2"
    using gesture by (simp add: s_def run_def handle_start handle_stop)
  have p2: "tail_pending L ?s2" and d2: "tail_done L ?s2"
    unfolding L_def using quiet by (simp_all add: start_stop_pending start_stop_done)
  have inv: "tail_pending L s" "tail_done L s"
    using run_released [OF p2 d2 later] by (simp_all add: s)
  have inv': "tail_pending L (fire_ended (L + 2) s)" "tail_done L (fire_ended (L + 2) s)"
    using inv by (simp_all add: fire_ended_pending fire_ended_done)
  have "ended_fired (nodes (fire_ended (L + 2) s) ! (L + 2))"
    using inv(1) by (intro fire_ended_sets_flag) (simp_all add: tail_pending_def)
  then have "idle (fire_ended (L + 2) s) \<and> (\<forall>n \<in> set (nodes (fire_ended (L + 2) s)). \<not> live n)"
    using released_silent(3) [OF inv'] by blast
  then show ?thesis
    using released_silent [OF inv] by blast
qed


theorem stop_before_head_completes_witness:
  "nodes mounted = [] \<and> calls_start OnMouseDown \<and> calls_stop OnMouseUp \<and>
   \<not> calls_start (Ended 0) \<and>
   source_started (nodes (run [(example_key, OnMouseDown), (example_key, OnMouseUp), (example_key, Ended 0)] mounted) ! 1) \<and>
   \<not> live (nodes (run [(example_key, OnMouseDown), (example_key, OnMouseUp), (example_key, Ended 0)] mounted) ! 1) \<and>
   can_end 2 (run [(example_key, OnMouseDown), (example_key, OnMouseUp), (example_key, Ended 0)] mounted) \<and>
   idle (fire_ended 2 (run [(example_key, OnMouseDown), (example_key, OnMouseUp), (example_key, Ended 0)] mounted))"
  using stop_before_head_completes [of mounted OnMouseDown OnMouseUp "[(example_key, Ended 0)]" example_key example_key]
  by (simp add: trace_eval)


text \<open>
  One voice from press to silence, with no other event in between: after a start gesture
  and the completion of the head, the loop node plays and has no completion due; the stop
  gesture then stops and disconnects head and loop, starts the tail and registers its
  completion handler; when the tail's completion fires, the tail is stopped and
  disconnected and the three handles are null.
\<close>

theorem press_hold_release:
  fixes s0 :: voice and p p' :: NoteButtonProps and e1 e2 :: event
  defines "L \<equiv> length (nodes s0)"
  defines "s1 \<equiv> run [(p, e1)] s0"
  defines "s2 \<equiv> run [(p, e1), (p, Ended L)] s0"
  defines "s3 \<equiv> run [(p, e1), (p, Ended L), (p', e2)] s0"
  defines "s4 \<equiv> run [(p, e1), (p, Ended L), (p', e2), (p', Ended (L + 2))] s0"
  assumes gesture: "calls_start e1" "calls_stop e2"
  shows "start p s0 = Inr s1 \<and> playing (nodes s1 ! L) \<and> can_end L s1 \<and>
         playing (nodes s2 ! (L + 1)) \<and> \<not> can_end (L + 1) s2 \<and>
         \<not> source_started (nodes s2 ! (L + 2)) \<and>
         headSourceRef s2 = Some L \<and> loopSourceRef s2 = Some (L + 1) \<and>
         tailSourceRef s2 = Some (L + 2) \<and>
         stop s2 = Inr s3 \<and>
         stop_called (nodes s3 ! L) \<and> \<not> live (nodes s3 ! L) \<and>
         stop_called (nodes s3 ! (L + 1)) \<and> \<not> live (nodes s3 ! (L + 1)) \<and>
         playing (nodes s3 ! (L + 2)) \<and>
         onended (nodes s3 ! (L + 2)) = Some StopTailSourceRef \<and> can_end (L + 2) s3 \<and>
         stop_called (nodes s4 ! (L + 2)) \<and> \<not> live (nodes s4 ! (L + 2)) \<and> idle s4"
proof -
  let ?r = "pitchRatio (note_of p)" and ?d = "destinationNodesProp p"
  let ?H = "(created (headBuffer p) ?r ?d False)
               \<lparr>source_started := True, ended_listeners := [StartLoopSource (Suc L)]\<rparr>"
  let ?Lp = "created (loopBuffer p) ?r ?d True"
  let ?T = "created (tailBuffer p) ?r ?d False"
  have s1: "s1 = s0\<lparr>nodes := nodes s0 @ [?H, ?Lp, ?T],
          headSourceRef := Some L, loopSourceRef := Some (Suc L), tailSourceRef := Some (Suc (Suc L)),
          button := map_option (\<lambda>old. ''scale(0.8)'') (button s0), context_running := True\<rparr>"
    using gesture(1) by (simp add: s1_def run_def handle_start call_def start_eq L_def)
  have st: "start p s0 = Inr s1"
    by (simp add: s1 start_eq L_def)
  have r2: "s2 = fire_ended L s1" and r3: "s3 = call (stop s2) s2"
    and r4: "s4 = fire_ended (L + 2) s3"
    using gesture(2)
    by (simp_all add: s1_def s2_def s3_def s4_def run_def handle_stop)
  have f1: "playing (nodes s1 ! L) \<and> can_end L s1"
    by (simp add: s1 L_def at_end playing_def can_end_def)
  have s2: "s2 = s1\<lparr>nodes := nodes s0 @ [?H\<lparr>ended_fired := True\<rparr>, ?Lp\<lparr>source_started := True\<rparr>, ?T]\<rparr>"
    using f1 unfolding r2
    by (simp add: fire_ended_def s1 L_def at_end listeners_of_def source_start_def node_start_def)
  have f2: "playing (nodes s2 ! (L + 1)) \<and> \<not> can_end (L + 1) s2 \<and>
         \<not> source_started (nodes s2 ! (L + 2)) \<and>
         headSourceRef s2 = Some L \<and> loopSourceRef s2 = Some (L + 1) \<and>
         tailSourceRef s2 = Some (L + 2)"
    by (simp add: s2 s1 L_def at_end playing_def can_end_def)
  have s3: "s3 = s2\<lparr>nodes := nodes s0 @
              [?H\<lparr>ended_fired := True, stop_called := True, outputs := []\<rparr>,
               ?Lp\<lparr>source_started := True, stop_called := True, outputs := []\<rparr>,
               ?T\<lparr>source_started := True, onended := Some StopTailSourceRef\<rparr>],
            headSourceRef := None, loopSourceRef := None,
            button := map_option (\<lambda>old. ''scale(1)'') (button s0)\<rparr>"
    unfolding r3
    by (simp add: call_def stop_eq s2 s1 L_def at_end Let_def set_transform_def released_def armed_def
        node_stop_def node_start_def node_disconnect_def option.map_comp comp_def)
  have st3: "stop s2 = Inr s3"
    by (simp add: s3 stop_eq s2 s1 L_def at_end Let_def set_transform_def released_def armed_def
        node_stop_def node_start_def node_disconnect_def option.map_comp comp_def)
  have f3: "stop_called (nodes s3 ! L) \<and> \<not> live (nodes s3 ! L) \<and>
         stop_called (nodes s3 ! (L + 1)) \<and> \<not> live (nodes s3 ! (L + 1)) \<and>
         playing (nodes s3 ! (L + 2)) \<and>
         onended (nodes s3 ! (L + 2)) = Some StopTailSourceRef \<and> can_end (L + 2) s3"
    by (simp add: s3 s2 s1 L_def at_end playing_def can_end_def live_def)
  have f4: "stop_called (nodes s4 ! (L + 2)) \<and> \<not> live (nodes s4 ! (L + 2)) \<and> idle s4"
    using f3 unfolding r4
    by (simp add: fire_ended_def s3 s2 s1 L_def at_end listeners_of_def stopSourceRef_eq released_def
        node_stop_def node_disconnect_def live_def idle_def call_def)
  show ?thesis
    using st f1 f2 st3 f3 f4 by blast
qed


theorem press_hold_release_witness:
  "calls_start OnMouseDown \<and> calls_stop OnMouseUp \<and>
   playing (nodes (run [(example_key, OnMouseDown), (example_key, Ended 0)] mounted) ! 1) \<and>
   \<not> live (nodes (run [(example_key, OnMouseDown), (example_key, Ended 0), (example_key, OnMouseUp)] mounted) ! 1) \<and>
   playing (nodes (run [(example_key, OnMouseDown), (example_key, Ended 0), (example_key, OnMouseUp)] mounted) ! 2) \<and>
   idle (run [(example_key, OnMouseDown), (example_key, Ended 0), (example_key, OnMouseUp),
              (example_key, Ended 2)] mounted)"
  using press_hold_release [of OnMouseDown OnMouseUp example_key mounted example_key]
  by (simp add: nodes_mounted numeral_2_eq_2)

text \<open>
  C1 fails on the code: \<^verbatim>\<open>start\<close> does not release the voice the handles name. After
  two start gestures on a mounted key six nodes are connected, both heads play, and the
  handles name the second voice only. When the first head has ended, its loop node plays;
  after the stop gesture and the completion of the second tail the key is in \<open>IDLE\<close> and
  that loop node is still heard, with no completion due and no handle that names it.
\<close>

theorem start_twice_orphans_first_voice:
  "length (nodes (run [(example_key, OnMouseDown), (example_key, OnMouseDown)] mounted)) = 6 \<and>
   headSourceRef (run [(example_key, OnMouseDown), (example_key, OnMouseDown)] mounted) = Some 3 \<and>
   loopSourceRef (run [(example_key, OnMouseDown), (example_key, OnMouseDown)] mounted) = Some 4 \<and>
   tailSourceRef (run [(example_key, OnMouseDown), (example_key, OnMouseDown)] mounted) = Some 5 \<and>
   map live (nodes (run [(example_key, OnMouseDown), (example_key, OnMouseDown)] mounted)) =
     [True, True, True, True, True, True] \<and>
   map playing (nodes (run [(example_key, OnMouseDown), (example_key, OnMouseDown)] mounted)) =
     [True, False, False, True, False, False] \<and>
   idle (run [(example_key, OnMouseDown), (example_key, OnMouseDown), (example_key, Ended 0),
              (example_key, OnMouseUp), (example_key, Ended 5)] mounted) \<and>
   map audible (nodes (run [(example_key, OnMouseDown), (example_key, OnMouseDown), (example_key, Ended 0),
              (example_key, OnMouseUp), (example_key, Ended 5)] mounted)) =
     [False, True, False, False, False, False] \<and>
   \<not> can_end 1 (run [(example_key, OnMouseDown), (example_key, OnMouseDown), (example_key, Ended 0),
              (example_key, OnMouseUp), (example_key, Ended 5)] mounted)"
  by (simp add: trace_eval example_key_def created_def new_buffer_source_def node_connect_def
      destination_def)



text \<open>The equations that evaluate the traces of the example key.\<close>

lemmas key_eval = trace_eval example_key_def created_def new_buffer_source_def node_connect_def
  destination_def

text \<open>
  C2 fails on the code, by the same missing release in \<^verbatim>\<open>start\<close>: on a key that is held
  when the second start gesture comes, the stop gesture comes before either head has
  completed, and the head-completion callback of the first voice is still due. When it
  fires it starts the first loop node, which is connected and which \<^verbatim>\<open>stop\<close> did not
  reach. After both heads and the tail have completed the key is in \<open>IDLE\<close> and that
  looping node is heard, with no completion due.
\<close>

theorem held_key_stop_leaves_loop_audible:
  "\<not> ended_fired (nodes (run [(example_key, OnMouseDown), (example_key, OnMouseDown), (example_key, OnMouseUp)] mounted) ! 0) \<and>
   \<not> ended_fired (nodes (run [(example_key, OnMouseDown), (example_key, OnMouseDown), (example_key, OnMouseUp)] mounted) ! 3) \<and>
   can_end 0 (run [(example_key, OnMouseDown), (example_key, OnMouseDown), (example_key, OnMouseUp)] mounted) \<and>
   idle (run [(example_key, OnMouseDown), (example_key, OnMouseDown), (example_key, OnMouseUp),
        (example_key, Ended 0), (example_key, Ended 3), (example_key, Ended 5)] mounted) \<and>
   map audible (nodes (run [(example_key, OnMouseDown), (example_key, OnMouseDown), (example_key, OnMouseUp),
        (example_key, Ended 0), (example_key, Ended 3), (example_key, Ended 5)] mounted)) =
     [False, True, False, False, False, False] \<and>
   loop (nodes (run [(example_key, OnMouseDown), (example_key, OnMouseDown), (example_key, OnMouseUp),
        (example_key, Ended 0), (example_key, Ended 3), (example_key, Ended 5)] mounted) ! 1) \<and>
   \<not> can_end 1 (run [(example_key, OnMouseDown), (example_key, OnMouseDown), (example_key, OnMouseUp),
        (example_key, Ended 0), (example_key, Ended 3), (example_key, Ended 5)] mounted)"
proof -
  have released:
    "let A = run [(example_key, OnMouseDown), (example_key, OnMouseDown), (example_key, OnMouseUp)] mounted
     in \<not> ended_fired (nodes A ! 0) \<and>
        \<not> ended_fired (nodes A ! 3) \<and>
        can_end 0 A"
    by (simp add: key_eval)
  have finished:
    "let S = run [(example_key, OnMouseDown), (example_key, OnMouseDown), (example_key, OnMouseUp),
            (example_key, Ended 0), (example_key, Ended 3), (example_key, Ended 5)] mounted
     in idle S \<and>
        map audible (nodes S) = [False, True, False, False, False, False] \<and>
        loop (nodes S ! 1) \<and>
        \<not> can_end 1 S"
    by (simp add: key_eval)
  from released [unfolded Let_def] finished [unfolded Let_def] show ?thesis
    by blast
qed

text \<open>
  C3 fails on the code: the tail's completion handler holds the key's tail handle, not
  the tail node (the head's listener holds the loop node itself). After a press, a
  release and a second press, the completion of the first tail runs
  \<^verbatim>\<open>stopSourceRef(tailSourceRef)\<close> on the second voice's tail: it disconnects that node,
  which was never started, and nulls the handle. The second head completes and its loop
  plays; the stop gesture then stops and disconnects head and loop, finds the tail handle
  null, starts no tail and registers no handler: the key is in \<open>IDLE\<close> at once and the
  second tail never sounds.
\<close>

theorem stale_tail_handler_disarms_new_tail:
  "ended_fired (nodes (run [(example_key, OnMouseDown), (example_key, OnMouseUp), (example_key, OnMouseDown),
        (example_key, Ended 2), (example_key, Ended 3)] mounted) ! 3) \<and>
   playing (nodes (run [(example_key, OnMouseDown), (example_key, OnMouseUp), (example_key, OnMouseDown),
        (example_key, Ended 2), (example_key, Ended 3)] mounted) ! 4) \<and>
   live (nodes (run [(example_key, OnMouseDown), (example_key, OnMouseUp), (example_key, OnMouseDown),
        (example_key, Ended 2), (example_key, Ended 3)] mounted) ! 4) \<and>
   headSourceRef (run [(example_key, OnMouseDown), (example_key, OnMouseUp), (example_key, OnMouseDown),
        (example_key, Ended 2), (example_key, Ended 3)] mounted) = Some 3 \<and>
   loopSourceRef (run [(example_key, OnMouseDown), (example_key, OnMouseUp), (example_key, OnMouseDown),
        (example_key, Ended 2), (example_key, Ended 3)] mounted) = Some 4 \<and>
   tailSourceRef (run [(example_key, OnMouseDown), (example_key, OnMouseUp), (example_key, OnMouseDown),
        (example_key, Ended 2), (example_key, Ended 3)] mounted) = None \<and>
   idle (run [(example_key, OnMouseDown), (example_key, OnMouseUp), (example_key, OnMouseDown),
        (example_key, Ended 2), (example_key, Ended 3), (example_key, OnMouseUp)] mounted) \<and>
   \<not> source_started (nodes (run [(example_key, OnMouseDown), (example_key, OnMouseUp), (example_key, OnMouseDown),
        (example_key, Ended 2), (example_key, Ended 3), (example_key, OnMouseUp)] mounted) ! 5) \<and>
   onended (nodes (run [(example_key, OnMouseDown), (example_key, OnMouseUp), (example_key, OnMouseDown),
        (example_key, Ended 2), (example_key, Ended 3), (example_key, OnMouseUp)] mounted) ! 5) = None \<and>
   map playing (nodes (run [(example_key, OnMouseDown), (example_key, OnMouseUp), (example_key, OnMouseDown),
        (example_key, Ended 2), (example_key, Ended 3), (example_key, OnMouseUp)] mounted)) =
     [False, False, False, False, False, False] \<and>
   \<not> can_end 5 (run [(example_key, OnMouseDown), (example_key, OnMouseUp), (example_key, OnMouseDown),
        (example_key, Ended 2), (example_key, Ended 3), (example_key, OnMouseUp)] mounted)"
proof -
  have sustained:
    "let B = run [(example_key, OnMouseDown), (example_key, OnMouseUp), (example_key, OnMouseDown),
            (example_key, Ended 2), (example_key, Ended 3)] mounted
     in ended_fired (nodes B ! 3) \<and>
        playing (nodes B ! 4) \<and>
        live (nodes B ! 4) \<and>
        headSourceRef B = Some 3 \<and>
        loopSourceRef B = Some 4 \<and>
        tailSourceRef B = None"
    by (simp add: key_eval)
  have stopped:
    "let C = run [(example_key, OnMouseDown), (example_key, OnMouseUp), (example_key, OnMouseDown),
            (example_key, Ended 2), (example_key, Ended 3), (example_key, OnMouseUp)] mounted
     in idle C \<and>
        \<not> source_started (nodes C ! 5) \<and>
        onended (nodes C ! 5) = None \<and>
        map playing (nodes C) = [False, False, False, False, False, False] \<and>
        \<not> can_end 5 C"
    by (simp add: key_eval)
  from sustained [unfolded Let_def] stopped [unfolded Let_def] show ?thesis
    by blast
qed


section \<open>Handles and swallowed playback errors\<close>

lemma handles_valid_iff:
  "handles_valid s =
     ((\<forall>i. headSourceRef s = Some i \<longrightarrow>
          i < length (nodes s) \<and> loopSourceRef s \<noteq> Some i \<and> tailSourceRef s \<noteq> Some i) \<and>
      (\<forall>i. loopSourceRef s = Some i \<longrightarrow> i < length (nodes s) \<and> tailSourceRef s \<noteq> Some i) \<and>
      (\<forall>i. tailSourceRef s = Some i \<longrightarrow> i < length (nodes s)))"
  by (simp add: handles_valid_def split: option.splits)

lemma start_handles_valid: "handles_valid (call (start p s) s)"
  by (simp add: call_def start_eq handles_valid_def)

lemma stop_frame:
  "headSourceRef (call (stop s) s) = None \<and> loopSourceRef (call (stop s) s) = None \<and>
   tailSourceRef (call (stop s) s) = tailSourceRef s \<and>
   length (nodes (call (stop s) s)) = length (nodes s)"
  by (simp add: call_def stop_eq Let_def set_transform_def split: option.splits)

lemma stop_handles_valid: "handles_valid s \<Longrightarrow> handles_valid (call (stop s) s)"
  using stop_frame [of s] by (simp add: handles_valid_iff)

lemma listener_step_handles:
  "length (nodes (call (run_listener l s) s)) = length (nodes s) \<and>
   headSourceRef (call (run_listener l s) s) = headSourceRef s \<and>
   loopSourceRef (call (run_listener l s) s) = loopSourceRef s \<and>
   (tailSourceRef (call (run_listener l s) s) = tailSourceRef s \<or>
    tailSourceRef (call (run_listener l s) s) = None)"
proof (cases l)
  case (StartLoopSource j)
  then show ?thesis
    by (simp add: call_def source_start_def split: sum.splits)
next
  case StopTailSourceRef
  then show ?thesis
    by (simp add: call_def stopSourceRef_eq split: option.splits)
qed

lemma listener_step_handles_valid:
  assumes "handles_valid s"
  shows "handles_valid (call (run_listener l s) s)"
proof -
  let ?s' = "call (run_listener l s) s"
  have len: "length (nodes ?s') = length (nodes s)"
    and h: "headSourceRef ?s' = headSourceRef s" and lp: "loopSourceRef ?s' = loopSourceRef s"
    and t: "tailSourceRef ?s' = tailSourceRef s \<or> tailSourceRef ?s' = None"
    using listener_step_handles [of l s] by simp_all
  from t show ?thesis
  proof
    assume "tailSourceRef ?s' = tailSourceRef s"
    with assms len h lp show ?thesis by (simp add: handles_valid_iff)
  next
    assume "tailSourceRef ?s' = None"
    with assms len h lp show ?thesis by (simp add: handles_valid_iff)
  qed
qed

lemma dispatch_handles_valid:
  "handles_valid s \<Longrightarrow> handles_valid (dispatch ls s)"
proof (induction ls arbitrary: s)
  case Nil
  then show ?case by simp
next
  case (Cons l ls)
  have "handles_valid (call (run_listener l s) s)"
    using Cons.prems by (rule listener_step_handles_valid)
  then have "handles_valid (dispatch ls (call (run_listener l s) s))"
    by (rule Cons.IH)
  then show ?case by (simp only: dispatch_call)
qed

lemma fire_ended_handles_valid:
  assumes "handles_valid s"
  shows "handles_valid (fire_ended i s)"
proof -
  have "handles_valid (s\<lparr>nodes := (nodes s)[i := (nodes s ! i)\<lparr>ended_fired := True\<rparr>]\<rparr>)"
    using assms by (simp add: handles_valid_iff)
  then show ?thesis
    using assms by (simp add: fire_ended_def dispatch_handles_valid)
qed

lemma handle_event_handles_valid:
  assumes "handles_valid s"
  shows "handles_valid (handle_event pe s)"
proof (cases pe)
  case (Pair props e)
  with assms show ?thesis
    by (cases e) (simp_all add: start_handles_valid stop_handles_valid fire_ended_handles_valid)
qed

lemma run_handles_valid:
  "handles_valid s \<Longrightarrow> handles_valid (run evs s)"
proof (induction evs arbitrary: s)
  case Nil
  then show ?case by (simp add: run_def)
next
  case (Cons pe evs)
  have "handles_valid (handle_event pe s)"
    using Cons.prems by (rule handle_event_handles_valid)
  then have "handles_valid (run evs (handle_event pe s))"
    by (rule Cons.IH)
  then show ?case by (simp add: run_def)
qed

lemma reachable_handles_valid: "handles_valid (run evs mounted)"
  by (rule run_handles_valid) (simp add: handles_valid_def mounted_def)

lemma handles_valid_in_range:
  "handles_valid s \<Longrightarrow> current r s = Some i \<Longrightarrow> i < length (nodes s)"
  by (cases r) (simp_all add: handles_valid_iff)

text \<open>
  C6: in every voice state whose handles are valid, as they are in every reachable
  state, \<^verbatim>\<open>stop\<close> returns without an error. Where a handle names a node that was never
  started, the platform's \<^verbatim>\<open>stop()\<close> raises and \<^verbatim>\<open>stopSourceRef\<close> still returns, having
  disconnected the node and cleared the handle and nothing else. Where the tail was
  started before, the platform's \<^verbatim>\<open>start()\<close> raises and \<^verbatim>\<open>stop\<close> still returns, the tail
  node unchanged but for its completion handler: it is not started a second time.
\<close>

theorem playback_errors_swallowed:
  assumes valid: "handles_valid s"
  shows "(\<exists>s'. stop s = Inr s') \<and>
   (current r s = Some i \<and> \<not> source_started (nodes s ! i) \<longrightarrow>
      source_stop i s = Inl InvalidStateError \<and>
      stopSourceRef r s =
        Inr (set_current r None (s\<lparr>nodes := (nodes s)[i := node_disconnect (nodes s ! i)]\<rparr>))) \<and>
   (tailSourceRef s = Some t \<and> source_started (nodes s ! t) \<longrightarrow>
      source_start t s = Inl InvalidStateError \<and>
      (\<exists>s'. stop s = Inr s' \<and> tailSourceRef s' = Some t \<and>
         nodes s' ! t = (nodes s ! t)\<lparr>onended := Some StopTailSourceRef\<rparr>))"
proof (intro conjI impI)
  show "\<exists>s'. stop s = Inr s'"
    by (rule stop_total)
next
  assume "current r s = Some i \<and> \<not> source_started (nodes s ! i)"
  then show "source_stop i s = Inl InvalidStateError"
    by (simp add: source_stop_def node_stop_def)
next
  assume "current r s = Some i \<and> \<not> source_started (nodes s ! i)"
  then show "stopSourceRef r s =
      Inr (set_current r None (s\<lparr>nodes := (nodes s)[i := node_disconnect (nodes s ! i)]\<rparr>))"
    by (simp add: stopSourceRef_eq released_def node_stop_def)
next
  assume "tailSourceRef s = Some t \<and> source_started (nodes s ! t)"
  then show "source_start t s = Inl InvalidStateError"
    by (simp add: source_start_def node_start_def)
next
  assume a: "tailSourceRef s = Some t \<and> source_started (nodes s ! t)"
  then have "t < length (nodes s)" "headSourceRef s \<noteq> Some t" "loopSourceRef s \<noteq> Some t"
    using valid by (auto simp add: handles_valid_iff)
  with a show "\<exists>s'. stop s = Inr s' \<and> tailSourceRef s' = Some t \<and>
         nodes s' ! t = (nodes s ! t)\<lparr>onended := Some StopTailSourceRef\<rparr>"
    by (auto simp add: stop_eq Let_def set_transform_def armed_def node_start_def nth_list_update
        split: option.splits)
qed

theorem playback_errors_swallowed_witness:
  "handles_valid (run [(example_key, OnMouseDown)] mounted) \<and>
   loopSourceRef (run [(example_key, OnMouseDown)] mounted) = Some 1 \<and>
   \<not> source_started (nodes (run [(example_key, OnMouseDown)] mounted) ! 1) \<and>
   source_stop 1 (run [(example_key, OnMouseDown)] mounted) = Inl InvalidStateError \<and>
   \<not> isl (stop (run [(example_key, OnMouseDown)] mounted)) \<and>
   handles_valid (run [(example_key, OnMouseDown), (example_key, OnMouseUp)] mounted) \<and>
   tailSourceRef (run [(example_key, OnMouseDown), (example_key, OnMouseUp)] mounted) = Some 2 \<and>
   source_started (nodes (run [(example_key, OnMouseDown), (example_key, OnMouseUp)] mounted) ! 2) \<and>
   source_start 2 (run [(example_key, OnMouseDown), (example_key, OnMouseUp)] mounted) = Inl InvalidStateError \<and>
   \<not> isl (stop (run [(example_key, OnMouseDown), (example_key, OnMouseUp)] mounted))"
  using playback_errors_swallowed [of "run [(example_key, OnMouseDown)] mounted" LoopRef 1 2]
    playback_errors_swallowed [of "run [(example_key, OnMouseDown), (example_key, OnMouseUp)] mounted" TailRef 2 2]
  by (simp add: trace_eval handles_valid_def)


section \<open>The octave of the idealised pitch\<close>

text \<open>
  Over the reals, a note twelve semitones up has twice the frequency and twice the
  playback rate. The program computes both in double precision, where the two sides are
  rounded separately; this development does not model that rounding.
\<close>

lemma midiNoteToPitch_octave_real: "midiNoteToPitch (n + 12) = 2 * midiNoteToPitch n"
proof -
  have "(real_of_int (n + 12) - 69) / 12 = (real_of_int n - 69) / 12 + 1"
    by (simp add: field_simps)
  then have "2 powr ((real_of_int (n + 12) - 69) / 12) = 2 powr ((real_of_int n - 69) / 12) * 2 powr 1"
    by (simp only: powr_add)
  then show ?thesis
    by (simp add: midiNoteToPitch_def)
qed

lemma pitchRatio_octave_real: "pitchRatio (n + 12) = 2 * pitchRatio n"
  by (simp only: pitchRatio_def midiNoteToPitch_octave_real times_divide_eq_right)

end
